theory Spec2Isabelle
  imports Main "HOL-Library.Sublist"
begin

section \<open>Python text primitives used by the three scripts\<close>

text \<open>
  File contents are modelled as \<^typ>\<open>string\<close>: the text that Python's text-mode
  \<^verbatim>\<open>read\<close> delivers, after newline translation. All characters the scripts inspect
  (braces, colons, newlines, spaces, the anchor texts) are ASCII, so looking at the
  UTF-8 bytes gives the same answers as looking at code points. The classes
  \<^verbatim>\<open>\w\<close> and \<^verbatim>\<open>\s\<close> and \<^verbatim>\<open>str.strip\<close> are modelled on their ASCII members.
\<close>

datatype error = ValueError | AttributeError

text \<open>\<^verbatim>\<open>s.split(sep)\<close> for a one-character separator: always at least one field.\<close>

fun py_split :: "char \<Rightarrow> string \<Rightarrow> string list" where
  "py_split sep [] = [[]]"
| "py_split sep (c # cs) =
     (if c = sep then [] # py_split sep cs
      else (case py_split sep cs of
              [] \<Rightarrow> [[c]]
            | f # fs \<Rightarrow> (c # f) # fs))"

text \<open>\<^verbatim>\<open>f.readlines()\<close>: the lines of a text, each keeping its terminating newline.\<close>

fun readlines :: "string \<Rightarrow> string list" where
  "readlines [] = []"
| "readlines (c # cs) =
     (if c = CHR ''\<newline>'' then [c] # readlines cs
      else (case readlines cs of
              [] \<Rightarrow> [[c]]
            | l # ls \<Rightarrow> (c # l) # ls))"

text \<open>\<^verbatim>\<open>sep.join(xs)\<close>.\<close>

fun join :: "string \<Rightarrow> string list \<Rightarrow> string" where
  "join sep [] = []"
| "join sep [x] = x"
| "join sep (x # y # ys) = x @ sep @ join sep (y # ys)"

definition word_char :: "char \<Rightarrow> bool" where
  "word_char c \<longleftrightarrow>
     c \<in> set (''abcdefghijklmnopqrstuvwxyz'' @ ''ABCDEFGHIJKLMNOPQRSTUVWXYZ'' @ ''0123456789_'')"

section \<open>Scanner (extract_handlers.py)\<close>

text \<open>
  The dictionary built at a declaration line, and the same dictionary once the key
  \<^verbatim>\<open>end\<close> has been set on closing.
\<close>

record tracked =
  m_name :: string
  m_start :: int
  m_lines :: "string list"
  m_full_text :: string

record closed_method = tracked +
  m_end :: int

record scan_state =
  current_method :: "tracked option"
  brace_count :: int
  in_method :: bool
  handlers :: "closed_method list"

definition handler_prefixes :: "string list" where
  "handler_prefixes =
     [''handleEvent'', ''handleReminder'', ''handleTask'', ''handleSettings'',
      ''handleState'', ''handleAdding'', ''handleListing'', ''handleMarking'',
      ''handleDeleting'', ''handleUpdating'', ''handleBulk'']"

text \<open>
  \<^verbatim>\<open>re.match(r'  private async (handleEvent|...|handleBulk)', line)\<close>: the pattern is
  anchored at the start of the line and is a literal followed by one of the alternatives.
\<close>

definition is_declaration :: "string \<Rightarrow> bool" where
  "is_declaration line \<longleftrightarrow>
     list_ex (\<lambda>p. prefix (''  private async '' @ p) line) handler_prefixes"

text \<open>
  \<^verbatim>\<open>re.search(r'private async (\w+)\(', line)\<close>: the leftmost position where the
  literal is followed by a non-empty run of word characters and an opening parenthesis.
  The greedy run is the maximal one; a shorter run would have to be followed by a word
  character, never by the parenthesis, so backtracking finds nothing more. The result is
  group 1, or \<open>None\<close> when nothing matches.
\<close>

definition match_name_at :: "string \<Rightarrow> string option" where
  "match_name_at s =
     (if prefix ''private async '' s then
        (let r = drop (length ''private async '') s;
             w = takeWhile word_char r
         in (case dropWhile word_char r of
               [] \<Rightarrow> None
             | c # _ \<Rightarrow> if w \<noteq> [] \<and> c = CHR ''('' then Some w else None))
      else None)"

fun search_name :: "string \<Rightarrow> string option" where
  "search_name [] = None"
| "search_name (c # cs) =
     (case match_name_at (c # cs) of
        Some w \<Rightarrow> Some w
      | None \<Rightarrow> search_name cs)"

text \<open>\<^verbatim>\<open>line.count('{') - line.count('}')\<close>.\<close>

definition brace_delta :: "string \<Rightarrow> int" where
  "brace_delta line = int (count_list line CHR ''{'') - int (count_list line CHR ''}'')"

definition close_method :: "tracked \<Rightarrow> nat \<Rightarrow> closed_method" where
  "close_method m i =
     \<lparr>m_name = m_name m, m_start = m_start m, m_lines = m_lines m,
      m_full_text = join ''\<newline>'' (m_lines m), m_end = int i\<rparr>"

text \<open>
  One iteration of the loop over \<^verbatim>\<open>enumerate(lines)\<close>. The name search runs while the
  dictionary is being built, so a declaration line without \<^verbatim>\<open>name(\<close> raises
  \<^verbatim>\<open>AttributeError\<close> (\<^verbatim>\<open>None.group\<close>) and ends the script.
\<close>

definition step :: "nat \<Rightarrow> string \<Rightarrow> scan_state \<Rightarrow> error + scan_state" where
  "step i line st =
     (if is_declaration line then
        (case search_name line of
           None \<Rightarrow> Inl AttributeError
         | Some n \<Rightarrow>
             Inr (st\<lparr>current_method :=
                        Some \<lparr>m_name = n, m_start = int i, m_lines = [line], m_full_text = []\<rparr>,
                      in_method := True,
                      brace_count := brace_delta line\<rparr>))
      else
        (case current_method st of
           None \<Rightarrow> Inr st
         | Some m \<Rightarrow>
             if in_method st then
               (let m' = m\<lparr>m_lines := m_lines m @ [line]\<rparr>;
                    bc = brace_count st + brace_delta line
                in if bc = 0 \<and> CHR ''{'' \<in> set (concat (m_lines m')) then
                     Inr (st\<lparr>handlers := handlers st @ [close_method m' i],
                              current_method := None,
                              in_method := False,
                              brace_count := 0\<rparr>)
                   else Inr (st\<lparr>current_method := Some m', brace_count := bc\<rparr>))
             else Inr st))"

fun scan_from :: "nat \<Rightarrow> string list \<Rightarrow> scan_state \<Rightarrow> error + scan_state" where
  "scan_from i [] st = Inr st"
| "scan_from i (l # ls) st =
     (case step i l st of
        Inl e \<Rightarrow> Inl e
      | Inr st' \<Rightarrow> scan_from (Suc i) ls st')"

definition init_state :: scan_state where
  "init_state = \<lparr>current_method = None, brace_count = 0, in_method = False, handlers = []\<rparr>"

text \<open>The whole scan of a file: its text is split at newlines and the loop is run.\<close>

definition scanner :: "string \<Rightarrow> error + closed_method list" where
  "scanner content =
     (case scan_from 0 (py_split CHR ''\<newline>'' content) init_state of
        Inl e \<Rightarrow> Inl e
      | Inr st \<Rightarrow> Inr (handlers st))"

section \<open>Reading the listing (extract_full_handlers.py and update_message_router.py)\<close>

text \<open>The ASCII characters for which \<^verbatim>\<open>str.isspace\<close> holds.\<close>

definition whitespace :: "char \<Rightarrow> bool" where
  "whitespace c \<longleftrightarrow>
     c \<in> set [CHR 0x09, CHR ''\<newline>'', CHR 0x0B, CHR 0x0C, CHR 0x0D,
              CHR 0x1C, CHR 0x1D, CHR 0x1E, CHR 0x1F, CHR '' '']"

definition strip :: "string \<Rightarrow> string" where
  "strip s = rev (dropWhile whitespace (rev (dropWhile whitespace s)))"

text \<open>
  \<^verbatim>\<open>int(s)\<close> in base 10: surrounding blanks are dropped (here the six characters of
  C's \<^verbatim>\<open>isspace\<close>, not the separators \<^verbatim>\<open>0x1C\<close> to \<^verbatim>\<open>0x1F\<close>), one sign is allowed,
  and single underscores may stand between the (ASCII) digits. \<open>None\<close> stands for
  \<^verbatim>\<open>ValueError\<close>. The interpreter's limit on the number of digits is not modelled.
\<close>

definition int_space :: "char \<Rightarrow> bool" where
  "int_space c \<longleftrightarrow>
     c \<in> set [CHR 0x09, CHR ''\<newline>'', CHR 0x0B, CHR 0x0C, CHR 0x0D, CHR '' '']"

fun int_digits :: "nat \<Rightarrow> bool \<Rightarrow> string \<Rightarrow> nat option" where
  "int_digits acc after_digit [] = (if after_digit then Some acc else None)"
| "int_digits acc after_digit (c # cs) =
     (if c \<in> set ''0123456789'' then int_digits (10 * acc + (of_char c - 48)) True cs
      else if c = CHR ''_'' \<and> after_digit then int_digits acc False cs
      else None)"

definition py_int :: "string \<Rightarrow> int option" where
  "py_int s =
     (case rev (dropWhile int_space (rev (dropWhile int_space s))) of
        [] \<Rightarrow> None
      | c # cs \<Rightarrow>
          if c = CHR ''-'' then map_option (\<lambda>n. - int n) (int_digits 0 False cs)
          else if c = CHR ''+'' then map_option int (int_digits 0 False cs)
          else map_option int (int_digits 0 False (c # cs)))"

record handler =
  h_name :: string
  h_start :: int
  h_end :: int

text \<open>
  The body of the loop over the listing's lines: \<open>Inr None\<close> when the line adds
  nothing (it is blank, or it names \<^verbatim>\<open>handleStateMessage\<close>), \<open>Inl ValueError\<close> when
  the unpacking of the fields or a call of \<^verbatim>\<open>int\<close> raises. The two calls of
  \<^verbatim>\<open>int\<close> sit inside the test on the name.
\<close>

definition parse_line :: "string \<Rightarrow> error + handler option" where
  "parse_line line =
     (if strip line \<noteq> [] then
        (case py_split CHR '':'' (strip line) of
           [name, start, end'] \<Rightarrow>
             if name \<noteq> ''handleStateMessage'' then
               (case py_int start of
                  None \<Rightarrow> Inl ValueError
                | Some a \<Rightarrow>
                    (case py_int end' of
                       None \<Rightarrow> Inl ValueError
                     | Some b \<Rightarrow> Inr (Some \<lparr>h_name = name, h_start = a, h_end = b\<rparr>)))
             else Inr None
         | _ \<Rightarrow> Inl ValueError)
      else Inr None)"

fun read_handlers :: "string list \<Rightarrow> handler list \<Rightarrow> error + handler list" where
  "read_handlers [] acc = Inr acc"
| "read_handlers (line # rest) acc =
     (case parse_line line of
        Inl e \<Rightarrow> Inl e
      | Inr None \<Rightarrow> read_handlers rest acc
      | Inr (Some h) \<Rightarrow> read_handlers rest (acc @ [h]))"

text \<open>Decimal rendering of a count in an f-string.\<close>

fun str_nat :: "nat \<Rightarrow> string" where
  "str_nat n =
     (if n < 10 then [''0123456789'' ! n]
      else str_nat (n div 10) @ [''0123456789'' ! (n mod 10)])"

section \<open>Extractor (extract_full_handlers.py)\<close>

text \<open>\<^verbatim>\<open>xs[a:b]\<close>: a negative bound counts from the end, and both bounds are clamped.\<close>

definition clamp_index :: "nat \<Rightarrow> int \<Rightarrow> nat" where
  "clamp_index n i = (if i < 0 then nat (max 0 (i + int n)) else min n (nat i))"

definition py_slice :: "'a list \<Rightarrow> int \<Rightarrow> int \<Rightarrow> 'a list" where
  "py_slice xs a b =
     (let lo = clamp_index (length xs) a;
          hi = clamp_index (length xs) b
      in take (hi - lo) (drop lo xs))"

fun extract_code :: "string list \<Rightarrow> handler list \<Rightarrow> string list \<Rightarrow> string list" where
  "extract_code ls [] extracted_code = extracted_code"
| "extract_code ls (h # hs) extracted_code =
     extract_code ls hs
       (extracted_code @ py_slice ls (h_start h) (h_end h + 1) @ [''\<newline>''])"

text \<open>
  \<^verbatim>\<open>s.replace(old, new)\<close>: every occurrence, found from left to right without overlap.
  For an empty \<^verbatim>\<open>old\<close> Python puts \<^verbatim>\<open>new\<close> before every character and at the end.
\<close>

fun replace_from :: "string \<Rightarrow> string \<Rightarrow> string \<Rightarrow> string" where
  "replace_from old new [] = []"
| "replace_from old new (c # cs) =
     (if old \<noteq> [] \<and> prefix old (c # cs)
      then new @ replace_from old new (drop (length old) (c # cs))
      else c # replace_from old new cs)"

definition replace :: "string \<Rightarrow> string \<Rightarrow> string \<Rightarrow> string" where
  "replace old new s =
     (if old = [] then new @ concat (map (\<lambda>c. c # new) s) else replace_from old new s)"

definition placeholder :: string where
  "placeholder =
     ''  // Placeholder - will be filled with actual handler implementations\<newline>'' @
     ''  // This is just the structure, the actual implementations will be extracted from MessageRouter.ts\<newline>'' @
     ''}''"

definition section_header :: string where
  "section_header =
     ''\<newline>  // ========== EVENT HANDLERS - FULL IMPLEMENTATION ==========\<newline>\<newline>''"

text \<open>
  The script as a function of the three files it reads: the source
  (\<^verbatim>\<open>MessageRouter.ts\<close>), the listing (\<^verbatim>\<open>handler_info.txt\<close>) and the target
  (\<^verbatim>\<open>StateRouter.ts\<close>). The result is the text written to the target and the lines
  printed; a fault while reading the listing ends the script before the target is opened
  for writing.
\<close>

definition extractor :: "string \<Rightarrow> string \<Rightarrow> string \<Rightarrow> error + (string \<times> string list)" where
  "extractor message_router handler_info state_router =
     (case read_handlers (readlines handler_info) [] of
        Inl e \<Rightarrow> Inl e
      | Inr handlers_to_extract \<Rightarrow>
          (let extracted_code = extract_code (readlines message_router) handlers_to_extract [];
               state_router_content = replace placeholder [] state_router
           in Inr (state_router_content @ section_header @ concat extracted_code @ ''}\<newline>'',
                   [''Extracted '' @ str_nat (length handlers_to_extract) @ '' handlers to StateRouter.ts'',
                    ''Handlers extracted:''] @
                   map (\<lambda>h. ''  - '' @ h_name h) handlers_to_extract)))"

section \<open>Rewriter (update_message_router.py)\<close>

fun mark_lines :: "handler list \<Rightarrow> int set \<Rightarrow> int set" where
  "mark_lines [] lines_to_remove = lines_to_remove"
| "mark_lines (h # hs) lines_to_remove =
     mark_lines hs (fold insert [h_start h..h_end h] lines_to_remove)"

fun keep_lines :: "int set \<Rightarrow> nat \<Rightarrow> string list \<Rightarrow> string list" where
  "keep_lines lines_to_remove i [] = []"
| "keep_lines lines_to_remove i (l # ls) =
     (if int i \<notin> lines_to_remove then l # keep_lines lines_to_remove (Suc i) ls
      else keep_lines lines_to_remove (Suc i) ls)"

definition deletion :: "handler list \<Rightarrow> string list \<Rightarrow> string list" where
  "deletion handlers_to_remove ls = keep_lines (mark_lines handlers_to_remove {}) 0 ls"

definition import_anchor :: string where
  "import_anchor = ''import { NLPRouter } from '../routing/NLPRouter.js';''"

definition import_line :: string where
  "import_line = ''\<newline>import { StateRouter } from '../routing/StateRouter.js';''"

definition field_anchor :: string where
  "field_anchor = ''  private nlpRouter: NLPRouter;''"

definition field_line :: string where
  "field_line = ''\<newline>  private stateRouter: StateRouter;''"

definition nlp_router_init :: string where
  "nlp_router_init = ''    // Set callback for showing menu after authentication''"

definition init_block :: string where
  "init_block =
     ''    // Initialize StateRouter with required dependencies\<newline>'' @
     ''    this.stateRouter = new StateRouter(\<newline>'' @
     ''      stateManager,\<newline>'' @
     ''      eventService,\<newline>'' @
     ''      reminderService,\<newline>'' @
     ''      taskService,\<newline>'' @
     ''      settingsService,\<newline>'' @
     ''      this.commandRouter,\<newline>'' @
     ''      this.sendMessage.bind(this),\<newline>'' @
     ''      this.reactToLastMessage.bind(this)\<newline>'' @
     ''    );\<newline>'' @
     ''\<newline>''"

definition state_router_init :: string where
  "state_router_init = init_block @ nlp_router_init"

text \<open>
  The regular expression of the fourth substitution is a sequence of literals and of
  starred character classes, greedy (\<^verbatim>\<open>\s*\<close>, \<^verbatim>\<open>[^}]*\<close>) or lazy (\<^verbatim>\<open>.*?\<close>, which
  with \<^verbatim>\<open>re.DOTALL\<close> takes any character). \<open>re_match\<close> is the backtracking matcher
  at one position: a greedy star tries one more character first, a lazy star tries the
  rest of the pattern first. It returns the text left after the match.
\<close>

datatype item = Lit string | Greedy "char \<Rightarrow> bool" | Lazy "char \<Rightarrow> bool"

fun re_match :: "item list \<Rightarrow> string \<Rightarrow> string option" where
  "re_match [] s = Some s"
| "re_match (Lit l # r) s =
     (if prefix l s then re_match r (drop (length l) s) else None)"
| "re_match (Greedy P # r) [] = re_match r []"
| "re_match (Greedy P # r) (c # cs) =
     (if P c then
        (case re_match (Greedy P # r) cs of
           Some rest \<Rightarrow> Some rest
         | None \<Rightarrow> re_match r (c # cs))
      else re_match r (c # cs))"
| "re_match (Lazy P # r) [] = re_match r []"
| "re_match (Lazy P # r) (c # cs) =
     (case re_match r (c # cs) of
        Some rest \<Rightarrow> Some rest
      | None \<Rightarrow> if P c then re_match (Lazy P # r) cs else None)"

definition old_handle_state :: "item list" where
  "old_handle_state =
     [Lit ''  private async handleStateMessage('', Greedy whitespace,
      Lit ''phone: string,'', Greedy whitespace,
      Lit ''userId: string,'', Greedy whitespace,
      Lit ''state: ConversationState,'', Greedy whitespace,
      Lit ''text: string'', Greedy whitespace,
      Lit ''): Promise<void> {'', Greedy (\<lambda>c. c \<noteq> CHR ''}''),
      Lit ''switch (state) {'', Lazy (\<lambda>c. True),
      Lit ''\<newline>  }'']"

definition new_handle_state :: string where
  "new_handle_state =
     ''  private async handleStateMessage(\<newline>'' @
     ''    phone: string,\<newline>'' @
     ''    userId: string,\<newline>'' @
     ''    state: ConversationState,\<newline>'' @
     ''    text: string\<newline>'' @
     ''  ): Promise<void> {\<newline>'' @
     ''    // Handle MAIN_MENU state here (not delegated to StateRouter)\<newline>'' @
     ''    if (state === ConversationState.IDLE || state === ConversationState.MAIN_MENU) {\<newline>'' @
     ''      await this.handleMainMenuChoice(phone, userId, text);\<newline>'' @
     ''      return;\<newline>'' @
     ''    }\<newline>'' @
     ''\<newline>'' @
     ''    // Delegate all other states to StateRouter\<newline>'' @
     ''    await this.stateRouter.handleStateMessage(phone, userId, state, text);\<newline>'' @
     ''  }''"

text \<open>
  \<^verbatim>\<open>re.sub(pattern, repl, s)\<close> for a replacement text without escapes: the matches are
  taken from left to right without overlap; an empty match puts the replacement in front
  of the next character.
\<close>

fun re_sub :: "item list \<Rightarrow> string \<Rightarrow> string \<Rightarrow> string" where
  "re_sub pat repl [] = (case re_match pat [] of Some _ \<Rightarrow> repl | None \<Rightarrow> [])"
| "re_sub pat repl (c # cs) =
     (case re_match pat (c # cs) of
        Some rest \<Rightarrow>
          if length rest < length (c # cs) then repl @ re_sub pat repl rest
          else repl @ c # re_sub pat repl cs
      | None \<Rightarrow> c # re_sub pat repl cs)"

text \<open>The four substitutions, in the order of the script.\<close>

definition add_import :: "string \<Rightarrow> string" where
  "add_import content = replace import_anchor (import_anchor @ import_line) content"

definition add_field :: "string \<Rightarrow> string" where
  "add_field content = replace field_anchor (field_anchor @ field_line) content"

definition add_init :: "string \<Rightarrow> string" where
  "add_init content = replace nlp_router_init state_router_init content"

definition delegate_handle_state :: "string \<Rightarrow> string" where
  "delegate_handle_state content = re_sub old_handle_state new_handle_state content"

text \<open>
  The script as a function of the listing and of the source file; the result is the text
  written back to the source file and the lines printed.
\<close>

definition rewriter :: "string \<Rightarrow> string \<Rightarrow> error + (string \<times> string list)" where
  "rewriter handler_info message_router =
     (case read_handlers (readlines handler_info) [] of
        Inl e \<Rightarrow> Inl e
      | Inr handlers_to_remove \<Rightarrow>
          (let new_lines = deletion handlers_to_remove (readlines message_router);
               content = concat new_lines
           in Inr (delegate_handle_state (add_init (add_field (add_import content))),
                   [''MessageRouter.ts updated successfully!'',
                    ''Removed '' @ str_nat (length handlers_to_remove) @ '' handler methods'',
                    ''Added StateRouter import and initialization'',
                    ''Updated handleStateMessage to delegate to StateRouter''])))"

section \<open>Notions used to state the properties\<close>

text \<open>
  The invariant of the scanning loop before line \<open>i\<close>: every recorded method lies
  strictly before \<open>i\<close> and ends after it starts, the recorded methods follow one another
  without overlap, and the method being tracked starts after all of them.
\<close>

definition scan_inv :: "nat \<Rightarrow> scan_state \<Rightarrow> bool" where
  "scan_inv i st \<longleftrightarrow>
     (\<forall>h \<in> set (handlers st). 0 \<le> m_start h \<and> m_start h < m_end h \<and> m_end h < int i) \<and>
     sorted_wrt (\<lambda>a b. m_end a < m_start b) (handlers st) \<and>
     (\<forall>m. current_method st = Some m \<longrightarrow>
        0 \<le> m_start m \<and> m_start m < int i \<and> (\<forall>h \<in> set (handlers st). m_end h < m_start m))"


text \<open>The index \<open>i\<close> lies in the union of the ranges of the descriptors.\<close>

definition in_ranges :: "handler list \<Rightarrow> int \<Rightarrow> bool" where
  "in_ranges hs i \<longleftrightarrow> list_ex (\<lambda>h. h_start h \<le> i \<and> i \<le> h_end h) hs"

text \<open>
  A listing line that raises: it is not blank, and either it does not have three fields,
  or it does not name \<^verbatim>\<open>handleStateMessage\<close> and one of its numbers does not parse.
\<close>

definition malformed :: "string \<Rightarrow> bool" where
  "malformed line \<longleftrightarrow>
     strip line \<noteq> [] \<and>
     (case py_split CHR '':'' (strip line) of
        [name, start, end'] \<Rightarrow>
          name \<noteq> ''handleStateMessage'' \<and> (py_int start = None \<or> py_int end' = None)
      | _ \<Rightarrow> True)"

text \<open>The descriptor a listing line denotes, and whether the line names the exception.\<close>

definition descriptor_of :: "string \<Rightarrow> handler option" where
  "descriptor_of line =
     (case py_split CHR '':'' (strip line) of
        [name, start, end'] \<Rightarrow>
          (case (py_int start, py_int end') of
             (Some a, Some b) \<Rightarrow> Some \<lparr>h_name = name, h_start = a, h_end = b\<rparr>
           | _ \<Rightarrow> None)
      | _ \<Rightarrow> None)"

definition names_exception :: "string \<Rightarrow> bool" where
  "names_exception line \<longleftrightarrow> hd (py_split CHR '':'' (strip line)) = ''handleStateMessage''"

text \<open>The non-blank lines of the listing: one per listed descriptor.\<close>

definition listed :: "string \<Rightarrow> string list" where
  "listed handler_info = filter (\<lambda>l. strip l \<noteq> []) (readlines handler_info)"

text \<open>What the Extractor prints, and the block it appends for one descriptor.\<close>

definition printed :: "handler list \<Rightarrow> string list" where
  "printed hs =
     [''Extracted '' @ str_nat (length hs) @ '' handlers to StateRouter.ts'',
      ''Handlers extracted:''] @ map (\<lambda>h. ''  - '' @ h_name h) hs"

definition block :: "string list \<Rightarrow> handler \<Rightarrow> string" where
  "block ls h = concat (py_slice ls (h_start h) (h_end h + 1)) @ ''\<newline>''"

text \<open>The pattern matches at none of the positions \<open>0\<close> to \<open>n - 1\<close> of \<open>s\<close>.\<close>

definition matches_nowhere :: "item list \<Rightarrow> string \<Rightarrow> nat \<Rightarrow> bool" where
  "matches_nowhere pat s n \<longleftrightarrow> list_all (\<lambda>k. re_match pat (drop k s) = None) [0..<n]"

text \<open>What the Rewriter prints.\<close>

definition success_report :: "nat \<Rightarrow> string list" where
  "success_report n =
     [''MessageRouter.ts updated successfully!'',
      ''Removed '' @ str_nat n @ '' handler methods'',
      ''Added StateRouter import and initialization'',
      ''Updated handleStateMessage to delegate to StateRouter'']"

section \<open>Properties of the Scanner\<close>

lemma scan_inv_init:
  "scan_inv 0 init_state"
  by (simp add: scan_inv_def init_state_def)

lemma scan_inv_step:
  assumes "scan_inv i st" and "step i l st = Inr st'"
  shows "scan_inv (Suc i) st'"
  using assms
  unfolding step_def scan_inv_def close_method_def Let_def
  by (auto split: if_splits option.splits simp: sorted_wrt_append; force)

lemma scan_inv_scan_from:
  "scan_inv i st \<Longrightarrow> scan_from i ls st = Inr st' \<Longrightarrow> scan_inv (i + length ls) st'"
proof (induction ls arbitrary: i st)
  case Nil
  then show ?case by simp
next
  case (Cons l ls)
  from Cons.prems(2) obtain st1 where s1: "step i l st = Inr st1"
    and s2: "scan_from (Suc i) ls st1 = Inr st'"
    by (auto split: sum.splits)
  from scan_inv_step[OF Cons.prems(1) s1] have "scan_inv (Suc i) st1" .
  from Cons.IH[OF this s2] show ?case by simp
qed

lemma scanner_inv:
  assumes "scanner content = Inr hs"
  shows "\<exists>st. handlers st = hs \<and> scan_inv (length (py_split CHR ''\<newline>'' content)) st"
proof -
  from assms obtain st where st: "scan_from 0 (py_split CHR ''\<newline>'' content) init_state = Inr st"
    and hs: "hs = handlers st"
    by (auto simp: scanner_def split: sum.splits)
  from scan_inv_scan_from[OF scan_inv_init st] hs show ?thesis by auto
qed

text \<open>
  Claim C4. Every descriptor the Scanner produces satisfies
  \<open>0 \<le> start \<le> end < number of lines\<close>, the lines being those of the split of the
  file at newlines, and the descriptors are listed in non-decreasing order of \<open>start\<close>.
\<close>

theorem scanner_range_validity:
  assumes "scanner content = Inr hs"
  shows "(\<forall>h \<in> set hs. 0 \<le> m_start h \<and> m_start h \<le> m_end h \<and>
            m_end h < int (length (py_split CHR ''\<newline>'' content))) \<and>
         sorted (map m_start hs)"
proof -
  from scanner_inv[OF assms] obtain st where h: "handlers st = hs"
    and inv: "scan_inv (length (py_split CHR ''\<newline>'' content)) st" by blast
  from inv h have bounds: "\<forall>h \<in> set hs. 0 \<le> m_start h \<and> m_start h < m_end h \<and>
            m_end h < int (length (py_split CHR ''\<newline>'' content))"
    and sw: "sorted_wrt (\<lambda>a b. m_end a < m_start b) hs"
    by (auto simp: scan_inv_def)
  have "sorted_wrt (\<lambda>a b. m_start a \<le> m_start b) hs"
  proof (rule sorted_wrt_mono_rel[OF _ sw])
    fix a b assume "a \<in> set hs" "b \<in> set hs" "m_end a < m_start b"
    with bounds show "m_start a \<le> m_start b" by force
  qed
  then have "sorted (map m_start hs)" by (simp add: sorted_map)
  with bounds show ?thesis by force
qed

theorem scanner_range_validity_witness:
  "scanner ''  private async handleEventFoo() {\<newline>}'' =
     Inr [\<lparr>m_name = ''handleEventFoo'', m_start = 0,
           m_lines = [''  private async handleEventFoo() {'', ''}''],
           m_full_text = ''  private async handleEventFoo() {\<newline>}'', m_end = 1\<rparr>] \<and>
   length (py_split CHR ''\<newline>'' ''  private async handleEventFoo() {\<newline>}'') = 2 \<and>
   list_all (\<lambda>h. 0 \<le> m_start h \<and> m_start h \<le> m_end h \<and>
        m_end h < int (length (py_split CHR ''\<newline>'' ''  private async handleEventFoo() {\<newline>}'')))
     [\<lparr>m_name = ''handleEventFoo'', m_start = 0,
       m_lines = [''  private async handleEventFoo() {'', ''}''],
       m_full_text = ''  private async handleEventFoo() {\<newline>}'', m_end = 1\<rparr>] \<and>
   sorted (map m_start [\<lparr>m_name = ''handleEventFoo'', m_start = 0,
           m_lines = [''  private async handleEventFoo() {'', ''}''],
           m_full_text = ''  private async handleEventFoo() {\<newline>}'', m_end = 1\<rparr>])"
proof -
  have h: "scanner ''  private async handleEventFoo() {\<newline>}'' =
     Inr [\<lparr>m_name = ''handleEventFoo'', m_start = 0,
           m_lines = [''  private async handleEventFoo() {'', ''}''],
           m_full_text = ''  private async handleEventFoo() {\<newline>}'', m_end = 1\<rparr>]"
    by (simp add: scanner_def step_def is_declaration_def handler_prefixes_def
          match_name_at_def word_char_def brace_delta_def close_method_def init_state_def Let_def)
  have n: "length (py_split CHR ''\<newline>'' ''  private async handleEventFoo() {\<newline>}'') = 2"
    by simp
  from scanner_range_validity[OF h] have
    "list_all (\<lambda>h. 0 \<le> m_start h \<and> m_start h \<le> m_end h \<and>
        m_end h < int (length (py_split CHR ''\<newline>'' ''  private async handleEventFoo() {\<newline>}'')))
     [\<lparr>m_name = ''handleEventFoo'', m_start = 0,
       m_lines = [''  private async handleEventFoo() {'', ''}''],
       m_full_text = ''  private async handleEventFoo() {\<newline>}'', m_end = 1\<rparr>]"
    and "sorted (map m_start [\<lparr>m_name = ''handleEventFoo'', m_start = 0,
           m_lines = [''  private async handleEventFoo() {'', ''}''],
           m_full_text = ''  private async handleEventFoo() {\<newline>}'', m_end = 1\<rparr>])"
    unfolding list_all_iff by blast+
  with h n show ?thesis
    by blast
qed






text \<open>
  The claim as written says that a method whose braces open and balance on its
  declaration line is never recorded. Here such a method is followed by an empty line
  and is recorded with end \<open>1\<close>.
\<close>

theorem scanner_end_after_start_counterexample:
  "is_declaration ''  private async handleEventFoo() {}'' \<and>
   brace_delta ''  private async handleEventFoo() {}'' = 0 \<and>
   CHR ''{'' \<in> set ''  private async handleEventFoo() {}'' \<and>
   scanner ''  private async handleEventFoo() {}\<newline>'' =
     Inr [\<lparr>m_name = ''handleEventFoo'', m_start = 0,
           m_lines = [''  private async handleEventFoo() {}'', ''''],
           m_full_text = ''  private async handleEventFoo() {}\<newline>'', m_end = 1\<rparr>]"
  by (simp add: scanner_def step_def is_declaration_def handler_prefixes_def
        match_name_at_def word_char_def brace_delta_def close_method_def init_state_def Let_def)

text \<open>
  Claim C10, as amended. Every descriptor the Scanner records satisfies
  \<open>end \<ge> start + 1\<close>, because the closing check is only evaluated on lines after the
  declaration line: a declaration line never closes or records anything, whatever its
  braces. A method whose braces open and balance on its declaration line is closed and
  recorded at the next line, with \<open>end = start + 1\<close>, when that line is not a declaration
  and has net brace delta zero.
\<close>

theorem scanner_end_after_start:
  "(scanner content = Inr hs \<longrightarrow> (\<forall>h \<in> set hs. m_start h + 1 \<le> m_end h)) \<and>
   (is_declaration line \<and> step i line st = Inr st' \<longrightarrow>
      handlers st' = handlers st \<and> in_method st' \<and> brace_count st' = brace_delta line) \<and>
   (is_declaration line \<and> brace_delta line = 0 \<and> CHR ''{'' \<in> set line \<and>
    step i line st = Inr st' \<and> \<not> is_declaration nxt \<and> brace_delta nxt = 0 \<longrightarrow>
      (\<exists>h st''. step (Suc i) nxt st' = Inr st'' \<and> handlers st'' = handlers st @ [h] \<and>
                 m_start h = int i \<and> m_end h = int i + 1 \<and> \<not> in_method st''))"
proof -
  have A: "scanner content = Inr hs \<longrightarrow> (\<forall>h \<in> set hs. m_start h + 1 \<le> m_end h)"
  proof
    assume "scanner content = Inr hs"
    from scanner_inv[OF this] show "\<forall>h \<in> set hs. m_start h + 1 \<le> m_end h"
      by (force simp: scan_inv_def)
  qed
  have B: "is_declaration line \<and> step i line st = Inr st' \<longrightarrow>
      handlers st' = handlers st \<and> in_method st' \<and> brace_count st' = brace_delta line"
    by (auto simp: step_def split: option.splits)
  have C: "is_declaration line \<and> brace_delta line = 0 \<and> CHR ''{'' \<in> set line \<and>
    step i line st = Inr st' \<and> \<not> is_declaration nxt \<and> brace_delta nxt = 0 \<longrightarrow>
      (\<exists>h st''. step (Suc i) nxt st' = Inr st'' \<and> handlers st'' = handlers st @ [h] \<and>
                 m_start h = int i \<and> m_end h = int i + 1 \<and> \<not> in_method st'')"
  proof
    assume a: "is_declaration line \<and> brace_delta line = 0 \<and> CHR ''{'' \<in> set line \<and>
      step i line st = Inr st' \<and> \<not> is_declaration nxt \<and> brace_delta nxt = 0"
    then obtain n where st': "st' = st\<lparr>current_method :=
                          Some \<lparr>m_name = n, m_start = int i, m_lines = [line], m_full_text = []\<rparr>,
                        in_method := True, brace_count := brace_delta line\<rparr>"
      by (auto simp: step_def split: option.splits)
    with a show "\<exists>h st''. step (Suc i) nxt st' = Inr st'' \<and> handlers st'' = handlers st @ [h] \<and>
                   m_start h = int i \<and> m_end h = int i + 1 \<and> \<not> in_method st''"
      by (simp add: step_def Let_def close_method_def)
  qed
  show ?thesis by (rule conjI[OF A conjI[OF B C]])
qed

theorem scanner_end_after_start_witness:
  "scanner ''  private async handleTaskA() {}\<newline>x'' =
     Inr [\<lparr>m_name = ''handleTaskA'', m_start = 0,
           m_lines = [''  private async handleTaskA() {}'', ''x''],
           m_full_text = ''  private async handleTaskA() {}\<newline>x'', m_end = 1\<rparr>] \<and>
   list_all (\<lambda>h. m_start h + 1 \<le> m_end h)
     [\<lparr>m_name = ''handleTaskA'', m_start = 0,
       m_lines = [''  private async handleTaskA() {}'', ''x''],
       m_full_text = ''  private async handleTaskA() {}\<newline>x'', m_end = 1\<rparr>] \<and>
   is_declaration ''  private async handleTaskA() {}'' \<and>
   brace_delta ''  private async handleTaskA() {}'' = 0 \<and>
   CHR ''{'' \<in> set ''  private async handleTaskA() {}'' \<and>
   step 0 ''  private async handleTaskA() {}'' init_state =
     Inr \<lparr>current_method = Some \<lparr>m_name = ''handleTaskA'', m_start = 0,
                                   m_lines = [''  private async handleTaskA() {}''],
                                   m_full_text = []\<rparr>,
          brace_count = 0, in_method = True, handlers = []\<rparr> \<and>
   \<not> is_declaration ''x'' \<and> brace_delta ''x'' = 0 \<and>
   (\<exists>h st''. step (Suc 0) ''x''
        \<lparr>current_method = Some \<lparr>m_name = ''handleTaskA'', m_start = 0,
                                 m_lines = [''  private async handleTaskA() {}''],
                                 m_full_text = []\<rparr>,
         brace_count = 0, in_method = True, handlers = []\<rparr> = Inr st'' \<and>
      handlers st'' = handlers init_state @ [h] \<and>
      m_start h = int 0 \<and> m_end h = int 0 + 1 \<and> \<not> in_method st'')"
proof -
  let ?L = "''  private async handleTaskA() {}''"
  let ?H = "\<lparr>m_name = ''handleTaskA'', m_start = 0, m_lines = [?L, ''x''],
             m_full_text = ''  private async handleTaskA() {}\<newline>x'', m_end = 1\<rparr>"
  let ?S = "\<lparr>current_method = Some \<lparr>m_name = ''handleTaskA'', m_start = 0,
                                     m_lines = [?L], m_full_text = []\<rparr>,
            brace_count = 0, in_method = True, handlers = []\<rparr>"
  have a: "scanner ''  private async handleTaskA() {}\<newline>x'' = Inr [?H]"
    by (simp add: scanner_def step_def is_declaration_def handler_prefixes_def
          match_name_at_def word_char_def brace_delta_def close_method_def init_state_def Let_def)
  have b: "is_declaration ?L"
    by (simp add: is_declaration_def handler_prefixes_def)
  have c: "brace_delta ?L = 0"
    by (simp add: brace_delta_def)
  have d: "CHR ''{'' \<in> set ?L"
    by simp
  have e: "step 0 ?L init_state = Inr ?S"
    by (simp add: step_def is_declaration_def handler_prefixes_def
          match_name_at_def word_char_def brace_delta_def init_state_def)
  have f: "\<not> is_declaration ''x''"
    by (simp add: is_declaration_def handler_prefixes_def)
  have g: "brace_delta ''x'' = 0"
    by (simp add: brace_delta_def)
  from scanner_end_after_start[of "''  private async handleTaskA() {}\<newline>x''" "[?H]" ?L 0 init_state ?S "''x''"]
    a b c d e f g
  show ?thesis
    unfolding list_all_iff by blast
qed

section \<open>Properties of the Rewriter's deletion step\<close>

lemma fold_insert_union:
  "fold insert xs s = set xs \<union> s"
  by (induction xs arbitrary: s) auto

lemma mark_lines_ranges:
  "mark_lines hs s = s \<union> {i. in_ranges hs i}"
  by (induction hs arbitrary: s) (auto simp: fold_insert_union in_ranges_def)

lemma keep_lines_nths:
  "keep_lines rm i ls = nths ls {j. int (i + j) \<notin> rm}"
  by (induction ls arbitrary: i) (auto simp: nths_Cons algebra_simps)

lemma deletion_nths:
  "deletion hs ls = nths ls {j. \<not> in_ranges hs (int j)}"
  by (simp add: deletion_def keep_lines_nths mark_lines_ranges)

lemma card_split_below:
  "card {j. j < n \<and> \<not> P j} + card {j. j < n \<and> P j} = (n::nat)"
proof -
  have "{j. j < n \<and> \<not> P j} \<union> {j. j < n \<and> P j} = {..<n}"
    by auto
  moreover have "{j. j < n \<and> \<not> P j} \<inter> {j. j < n \<and> P j} = {}"
    by auto
  moreover have "finite {j. j < n \<and> \<not> P j}" and "finite {j. j < n \<and> P j}"
    by simp_all
  ultimately have "card {j. j < n \<and> \<not> P j} + card {j. j < n \<and> P j} = card {..<n}"
    by (metis card_Un_disjoint)
  then show ?thesis
    by simp
qed

lemma length_deletion:
  "length (deletion hs ls) + card {j. j < length ls \<and> in_ranges hs (int j)} = length ls"
proof -
  have "length (deletion hs ls) = card {j. j < length ls \<and> \<not> in_ranges hs (int j)}"
    by (simp add: deletion_nths length_nths)
  with card_split_below[of "length ls" "\<lambda>j. in_ranges hs (int j)"] show ?thesis
    by simp
qed

text \<open>
  Claim C9. The deletion step keeps exactly the lines whose index lies in none of the
  listed ranges, unchanged and in their original order (\<^const>\<open>nths\<close> selects the
  elements at the given indices, in order), and it removes each line whose index lies in
  the union of the ranges once, however the ranges overlap or repeat.
\<close>

theorem deletion_frame:
  "deletion hs ls = nths ls {j. \<not> in_ranges hs (int j)} \<and>
   length (deletion hs ls) + card {j. j < length ls \<and> in_ranges hs (int j)} = length ls"
  by (rule conjI[OF deletion_nths length_deletion])

theorem deletion_frame_witness:
  "deletion [\<lparr>h_name = ''a'', h_start = 1, h_end = 2\<rparr>, \<lparr>h_name = ''b'', h_start = 2, h_end = 2\<rparr>]
     [''w'', ''x'', ''y'', ''z''] = [''w'', ''z''] \<and>
   nths [''w'', ''x'', ''y'', ''z'']
     {j. \<not> in_ranges [\<lparr>h_name = ''a'', h_start = 1, h_end = 2\<rparr>,
                        \<lparr>h_name = ''b'', h_start = 2, h_end = 2\<rparr>] (int j)} = [''w'', ''z''] \<and>
   card {j. j < length [''w'', ''x'', ''y'', ''z''] \<and>
            in_ranges [\<lparr>h_name = ''a'', h_start = 1, h_end = 2\<rparr>,
                       \<lparr>h_name = ''b'', h_start = 2, h_end = 2\<rparr>] (int j)} = 2"
proof -
  let ?hs = "[\<lparr>h_name = ''a'', h_start = 1, h_end = 2\<rparr>, \<lparr>h_name = ''b'', h_start = 2, h_end = 2\<rparr>]"
  let ?ls = "[''w'', ''x'', ''y'', ''z'']"
  have d: "deletion ?hs ?ls = [''w'', ''z'']"
    by (simp add: deletion_def upto.simps)
  from deletion_frame[of ?hs ?ls] d show ?thesis
    by simp
qed

lemma in_ranges_concat:
  "in_ranges hs i \<longleftrightarrow> i \<in> set (concat (map (\<lambda>h. [h_start h..h_end h]) hs))"
  by (auto simp: in_ranges_def list_ex_iff)

lemma length_ranges:
  "\<forall>h \<in> set hs. h_start h \<le> h_end h + 1 \<Longrightarrow>
   int (length (concat (map (\<lambda>h. [h_start h..h_end h]) hs))) = (\<Sum>h\<leftarrow>hs. h_end h - h_start h + 1)"
  by (induction hs) (auto simp: length_concat)

text \<open>
  The claim as written gives the count for every listing. With a listing that names the
  same line twice the line is removed once, and the count is off by one.
\<close>

theorem deletion_line_count_counterexample:
  "read_handlers (readlines ''a:0:0\<newline>b:0:0\<newline>'') [] =
     Inr [\<lparr>h_name = ''a'', h_start = 0, h_end = 0\<rparr>, \<lparr>h_name = ''b'', h_start = 0, h_end = 0\<rparr>] \<and>
   int (length (deletion [\<lparr>h_name = ''a'', h_start = 0, h_end = 0\<rparr>,
                          \<lparr>h_name = ''b'', h_start = 0, h_end = 0\<rparr>] [''x\<newline>''])) \<noteq>
   int (length [''x\<newline>'']) -
     (\<Sum>h\<leftarrow>[\<lparr>h_name = ''a'', h_start = 0, h_end = 0\<rparr>,
              \<lparr>h_name = ''b'', h_start = 0, h_end = 0\<rparr>]. h_end h - h_start h + 1)"
  by (simp add: deletion_def upto.simps parse_line_def strip_def whitespace_def py_int_def int_space_def)

text \<open>
  Claim C2, as amended. When the removed descriptors' ranges lie within the file
  (\<open>0 \<le> start \<le> end < number of lines\<close>) and no line index occurs in two of them or
  twice, the number of lines after the deletion is the number before minus the sum of
  \<open>end - start + 1\<close> over the removed descriptors.
\<close>

theorem deletion_line_count:
  assumes inside: "\<forall>h \<in> set hs. 0 \<le> h_start h \<and> h_start h \<le> h_end h \<and> h_end h < int (length ls)"
    and disj: "distinct (concat (map (\<lambda>h. [h_start h..h_end h]) hs))"
  shows "int (length (deletion hs ls)) = int (length ls) - (\<Sum>h\<leftarrow>hs. h_end h - h_start h + 1)"
proof -
  let ?R = "concat (map (\<lambda>h. [h_start h..h_end h]) hs)"
  let ?U = "{j. j < length ls \<and> in_ranges hs (int j)}"
  have sub: "set ?R \<subseteq> int ` {..<length ls}"
  proof
    fix i assume "i \<in> set ?R"
    then obtain h where "h \<in> set hs" "h_start h \<le> i" "i \<le> h_end h"
      by auto
    with inside have "0 \<le> i" "i < int (length ls)"
      by force+
    then have "i = int (nat i)" "nat i < length ls"
      by auto
    then show "i \<in> int ` {..<length ls}"
      by blast
  qed
  have "int ` ?U = set ?R"
  proof
    show "int ` ?U \<subseteq> set ?R"
      by (auto simp: in_ranges_concat)
    show "set ?R \<subseteq> int ` ?U"
    proof
      fix i assume i: "i \<in> set ?R"
      with sub have "i \<in> int ` {..<length ls}"
        by blast
      then obtain j where "j < length ls" "i = int j"
        by auto
      with i show "i \<in> int ` ?U"
        by (auto simp: in_ranges_concat)
    qed
  qed
  moreover have "inj_on int ?U"
    by (simp add: inj_on_def)
  ultimately have "card (set ?R) = card ?U"
    using card_image[of int ?U] by simp
  moreover have "card (set ?R) = length ?R"
    using disj by (rule distinct_card)
  moreover have "int (length ?R) = (\<Sum>h\<leftarrow>hs. h_end h - h_start h + 1)"
    using inside by (intro length_ranges) force
  ultimately have "int (card ?U) = (\<Sum>h\<leftarrow>hs. h_end h - h_start h + 1)"
    by simp
  moreover have "int (length (deletion hs ls)) = int (length ls) - int (card ?U)"
    using length_deletion[of hs ls] by linarith
  ultimately show ?thesis
    by simp
qed

theorem deletion_line_count_witness:
  "list_all (\<lambda>h. 0 \<le> h_start h \<and> h_start h \<le> h_end h \<and>
               h_end h < int (length [''w'', ''x'', ''y'', ''z'']))
     [\<lparr>h_name = ''a'', h_start = 1, h_end = 2\<rparr>] \<and>
   distinct (concat (map (\<lambda>h. [h_start h..h_end h]) [\<lparr>h_name = ''a'', h_start = 1, h_end = 2\<rparr>])) \<and>
   int (length (deletion [\<lparr>h_name = ''a'', h_start = 1, h_end = 2\<rparr>] [''w'', ''x'', ''y'', ''z''])) =
     int (length [''w'', ''x'', ''y'', ''z'']) -
     (\<Sum>h\<leftarrow>[\<lparr>h_name = ''a'', h_start = 1, h_end = 2\<rparr>]. h_end h - h_start h + 1)"
proof -
  let ?hs = "[\<lparr>h_name = ''a'', h_start = 1, h_end = 2\<rparr>]"
  let ?ls = "[''w'', ''x'', ''y'', ''z'']"
  have h1: "\<forall>h \<in> set ?hs. 0 \<le> h_start h \<and> h_start h \<le> h_end h \<and> h_end h < int (length ?ls)"
    by simp
  have h2: "distinct (concat (map (\<lambda>h. [h_start h..h_end h]) ?hs))"
    by (simp add: upto.simps)
  from deletion_line_count[OF h1 h2] h1 h2 show ?thesis
    unfolding list_all_iff by blast
qed

section \<open>Properties of the listing reader and of the Extractor\<close>

lemma parse_line_error:
  "parse_line l = Inl e \<longleftrightarrow> e = ValueError \<and> malformed l"
  by (cases e) (auto simp: parse_line_def malformed_def split: list.splits option.splits if_splits)

lemma parse_line_ok:
  "\<not> malformed l \<Longrightarrow>
   parse_line l = Inr (if strip l \<noteq> [] \<and> \<not> names_exception l then descriptor_of l else None) \<and>
   (strip l \<noteq> [] \<and> \<not> names_exception l \<longrightarrow> descriptor_of l \<noteq> None)"
  by (auto simp: parse_line_def malformed_def descriptor_of_def names_exception_def
           split: list.splits option.splits if_splits)

lemma read_handlers_ok:
  "\<forall>l \<in> set ls. \<not> malformed l \<Longrightarrow>
   read_handlers ls acc =
     Inr (acc @ List.map_filter descriptor_of (filter (\<lambda>l. strip l \<noteq> [] \<and> \<not> names_exception l) ls))"
proof (induction ls arbitrary: acc)
  case Nil
  then show ?case by (simp add: map_filter_simps)
next
  case (Cons l ls)
  then have nm: "\<not> malformed l" and rest: "\<forall>l \<in> set ls. \<not> malformed l" by auto
  from parse_line_ok[OF nm] Cons.IH[OF rest] show ?case
    by (auto simp: map_filter_simps)
qed

lemma length_kept:
  "\<forall>l \<in> set ls. \<not> malformed l \<Longrightarrow>
   length (List.map_filter descriptor_of (filter (\<lambda>l. strip l \<noteq> [] \<and> \<not> names_exception l) ls)) +
     length (filter names_exception (filter (\<lambda>l. strip l \<noteq> []) ls)) =
   length (filter (\<lambda>l. strip l \<noteq> []) ls)"
proof (induction ls)
  case Nil
  then show ?case by (simp add: map_filter_simps)
next
  case (Cons l ls)
  then have nm: "\<not> malformed l" and rest: "\<forall>l \<in> set ls. \<not> malformed l" by auto
  from parse_line_ok[OF nm] Cons.IH[OF rest] show ?case
    by (auto simp: map_filter_simps)
qed

lemma read_handlers_fault:
  "\<exists>l \<in> set ls. malformed l \<Longrightarrow> read_handlers ls acc = Inl ValueError"
proof (induction ls arbitrary: acc)
  case Nil
  then show ?case by simp
next
  case (Cons l ls)
  show ?case
  proof (cases "parse_line l")
    case (Inl e)
    with parse_line_error[of l e] have "e = ValueError" by simp
    with Inl show ?thesis by simp
  next
    case (Inr r)
    then have "\<not> malformed l"
      using parse_line_error[of l ValueError] by simp
    with Cons.prems have "\<exists>l \<in> set ls. malformed l" by auto
    from Cons.IH[OF this] Inr show ?thesis by (cases r) simp_all
  qed
qed

lemma read_handlers_iff:
  "read_handlers ls acc = Inl ValueError \<longleftrightarrow> (\<exists>l \<in> set ls. malformed l)"
proof (cases "\<exists>l \<in> set ls. malformed l")
  case True
  then show ?thesis by (simp add: read_handlers_fault)
next
  case False
  then have "\<forall>l \<in> set ls. \<not> malformed l" by simp
  from read_handlers_ok[OF this] False show ?thesis by simp
qed

lemma extract_code_eq:
  "extract_code ls hs acc = acc @ concat (map (\<lambda>h. py_slice ls (h_start h) (h_end h + 1) @ [''\<newline>'']) hs)"
  by (induction hs arbitrary: acc) auto

lemma concat_extract_code:
  "concat (extract_code ls hs []) = concat (map (block ls) hs)"
  by (induction hs) (auto simp: extract_code_eq block_def)

lemma prefix_short:
  "prefix xs (ys @ zs) \<Longrightarrow> length xs \<le> length ys \<Longrightarrow> prefix xs ys"
  by (auto simp: prefix_append)

lemma replace_from_absent:
  "\<not> sublist old s \<Longrightarrow> replace_from old new s = s"
proof (induction s)
  case Nil
  then show ?case by simp
next
  case (Cons c cs)
  have "\<not> prefix old (c # cs)" using Cons.prems prefix_imp_sublist by blast
  moreover have "\<not> sublist old cs" using Cons.prems by (auto simp: sublist_Cons_right)
  ultimately show ?case using Cons.IH by simp
qed

lemma replace_from_first:
  assumes "old \<noteq> []" and "\<not> sublist old (pre @ butlast old)"
  shows "replace_from old new (pre @ old @ post) = pre @ new @ replace_from old new post"
  using assms(2)
proof (induction pre)
  case Nil
  from assms(1) obtain c cs where old: "old = c # cs" by (cases old) auto
  then show ?case by simp
next
  case (Cons c pre)
  have "\<not> prefix old (c # pre @ old @ post)"
  proof
    assume p: "prefix old (c # pre @ old @ post)"
    have "c # pre @ old @ post = (c # pre @ butlast old) @ (last old # post)"
      using assms(1) by simp
    with p have "prefix old ((c # pre @ butlast old) @ (last old # post))" by simp
    moreover have "length old \<le> length (c # pre @ butlast old)" using assms(1) by simp
    ultimately have "prefix old (c # pre @ butlast old)" by (rule prefix_short)
    then have "sublist old ((c # pre) @ butlast old)" using prefix_imp_sublist by fastforce
    with Cons.prems show False by simp
  qed
  moreover have "\<not> sublist old (pre @ butlast old)" using Cons.prems by (auto simp: sublist_Cons_right)
  ultimately show ?case using Cons.IH by simp
qed



lemma replace_absent:
  "\<not> sublist old s \<Longrightarrow> replace old new s = s"
proof (cases "old = []")
  case True
  assume "\<not> sublist old s"
  with True show ?thesis by simp
next
  case False
  assume "\<not> sublist old s"
  with False show ?thesis by (simp add: replace_def replace_from_absent)
qed

lemma replace_first:
  "old \<noteq> [] \<Longrightarrow> \<not> sublist old (pre @ butlast old) \<Longrightarrow>
   replace old new (pre @ old @ post) = pre @ new @ replace old new post"
  by (simp add: replace_def replace_from_first)

lemma extractor_ok:
  "read_handlers (readlines hi) [] = Inr hs \<Longrightarrow>
   extractor mr hi sr =
     Inr (replace placeholder [] sr @ section_header @ concat (map (block (readlines mr)) hs) @ ''}\<newline>'',
          printed hs)"
  by (simp add: extractor_def concat_extract_code printed_def)

lemma read_handlers_Inr:
  "read_handlers ls [] = Inr hs \<Longrightarrow>
   (\<forall>l \<in> set ls. \<not> malformed l) \<and>
   hs = List.map_filter descriptor_of (filter (\<lambda>l. strip l \<noteq> [] \<and> \<not> names_exception l) ls)"
proof -
  assume a: "read_handlers ls [] = Inr hs"
  then have nm: "\<forall>l \<in> set ls. \<not> malformed l"
    using read_handlers_fault[of ls "[]"] by auto
  from read_handlers_ok[OF nm, of "[]"] a nm show ?thesis by simp
qed

lemma read_handlers_cases:
  "read_handlers ls acc = Inl ValueError \<or> (\<exists>hs. read_handlers ls acc = Inr hs)"
  using read_handlers_fault[of ls acc] read_handlers_ok[of ls acc] by blast



text \<open>
  The claim as written counts every non-blank line whose numbers do not parse. A line
  naming \<^verbatim>\<open>handleStateMessage\<close> is dropped before its numbers are read, so both
  scripts run to the end on it.
\<close>

theorem listing_fault_counterexample:
  "strip ''handleStateMessage:x:y\<newline>'' \<noteq> [] \<and>
   py_split CHR '':'' (strip ''handleStateMessage:x:y\<newline>'') = [''handleStateMessage'', ''x'', ''y''] \<and>
   py_int ''x'' = None \<and> py_int ''y'' = None \<and>
   extractor [] ''handleStateMessage:x:y\<newline>'' [] =
     Inr (section_header @ ''}\<newline>'',
          [''Extracted 0 handlers to StateRouter.ts'', ''Handlers extracted:'']) \<and>
   rewriter ''handleStateMessage:x:y\<newline>'' [] = Inr ([], success_report 0)"
  by code_simp

text \<open>
  Claim C8, as amended. The Extractor and the Rewriter end with the parsing fault
  (\<^verbatim>\<open>ValueError\<close>) exactly when the listing has a non-blank line that does not split
  into three colon-separated fields, or that names a method other than
  \<^verbatim>\<open>handleStateMessage\<close> and has a numeric field that does not parse as an integer.
  Blank lines are skipped.
\<close>

theorem listing_fault:
  "(extractor mr hi sr = Inl ValueError \<longleftrightarrow> (\<exists>l \<in> set (readlines hi). malformed l)) \<and>
   (rewriter hi mr = Inl ValueError \<longleftrightarrow> (\<exists>l \<in> set (readlines hi). malformed l)) \<and>
   (strip l = [] \<longrightarrow> parse_line l = Inr None)"
proof -
  have "extractor mr hi sr = Inl ValueError \<longleftrightarrow> read_handlers (readlines hi) [] = Inl ValueError"
    by (auto simp: extractor_def Let_def split: sum.splits)
  moreover have "rewriter hi mr = Inl ValueError \<longleftrightarrow> read_handlers (readlines hi) [] = Inl ValueError"
    by (auto simp: rewriter_def Let_def split: sum.splits)
  moreover have "strip l = [] \<longrightarrow> parse_line l = Inr None"
    by (simp add: parse_line_def)
  ultimately show ?thesis by (simp add: read_handlers_iff)
qed

theorem listing_fault_witness:
  "(\<exists>l \<in> set (readlines ''a:1\<newline>''). malformed l) \<and>
   extractor ''x'' ''a:1\<newline>'' ''t'' = Inl ValueError \<and>
   rewriter ''a:1\<newline>'' ''x'' = Inl ValueError \<and>
   strip '' \<newline>'' = [] \<and> parse_line '' \<newline>'' = Inr None"
proof -
  have m: "\<exists>l \<in> set (readlines ''a:1\<newline>''). malformed l"
    by (simp add: malformed_def strip_def whitespace_def)
  have b: "strip '' \<newline>'' = []"
    by (simp add: strip_def whitespace_def)
  from listing_fault[of "''x''" "''a:1\<newline>''" "''t''" "'' \<newline>''"] m b show ?thesis
    by blast
qed

text \<open>
  The claim as written says that the target file does not change when the placeholder is
  absent. The target \<^verbatim>\<open>T\<close> has no placeholder, and the text written back is longer.
\<close>

theorem extractor_placeholder_absent_counterexample:
  "\<not> sublist placeholder ''T'' \<and>
   extractor [] [] ''T'' =
     Inr (''T'' @ section_header @ ''}\<newline>'',
          [''Extracted 0 handlers to StateRouter.ts'', ''Handlers extracted:'']) \<and>
   ''T'' @ section_header @ ''}\<newline>'' \<noteq> ''T''"
  by code_simp

text \<open>
  Claim C7, as amended. If the placeholder text is not found verbatim in the target
  file, the replacement is a silent no-op: no fault is raised and the printed lines are
  those of any other run. The target file still changes: the Extractor writes the
  unchanged content followed by the section header, the extracted blocks and the
  closing brace line.
\<close>

theorem extractor_placeholder_absent:
  assumes "\<not> sublist placeholder sr" and "read_handlers (readlines hi) [] = Inr hs"
  shows "replace placeholder [] sr = sr \<and>
         extractor mr hi sr =
           Inr (sr @ section_header @ concat (map (block (readlines mr)) hs) @ ''}\<newline>'', printed hs)"
  using assms by (simp add: extractor_ok replace_absent)

theorem extractor_placeholder_absent_witness:
  "\<not> sublist placeholder ''class X {}'' \<and>
   read_handlers (readlines ''a:0:0\<newline>'') [] = Inr [\<lparr>h_name = ''a'', h_start = 0, h_end = 0\<rparr>] \<and>
   replace placeholder [] ''class X {}'' = ''class X {}'' \<and>
   extractor ''l0\<newline>'' ''a:0:0\<newline>'' ''class X {}'' =
     Inr (''class X {}'' @ section_header @
          concat (map (block (readlines ''l0\<newline>'')) [\<lparr>h_name = ''a'', h_start = 0, h_end = 0\<rparr>]) @
          ''}\<newline>'',
          printed [\<lparr>h_name = ''a'', h_start = 0, h_end = 0\<rparr>])"
proof -
  have h1: "\<not> sublist placeholder ''class X {}''"
    by code_simp
  have h2: "read_handlers (readlines ''a:0:0\<newline>'') [] = Inr [\<lparr>h_name = ''a'', h_start = 0, h_end = 0\<rparr>]"
    by code_simp
  from extractor_placeholder_absent[OF h1 h2, of "''l0\<newline>''"] h1 h2 show ?thesis
    by blast
qed

text \<open>
  The claim as written says that a second run leaves the placeholder-free target
  unchanged, and that the first run appends one block less than the listing has
  descriptors. The second run appends the header, the block and the closing line once
  more; and a listing that does not name \<^verbatim>\<open>handleStateMessage\<close> gets one block per
  descriptor.
\<close>

theorem extractor_two_runs_counterexample:
  "extractor ''x\<newline>y\<newline>'' ''a:0:0\<newline>handleStateMessage:1:1\<newline>'' placeholder =
     Inr (section_header @ ''x\<newline>\<newline>}\<newline>'',
          [''Extracted 1 handlers to StateRouter.ts'', ''Handlers extracted:'', ''  - a'']) \<and>
   \<not> sublist placeholder (section_header @ ''x\<newline>\<newline>}\<newline>'') \<and>
   extractor ''x\<newline>y\<newline>'' ''a:0:0\<newline>handleStateMessage:1:1\<newline>''
       (section_header @ ''x\<newline>\<newline>}\<newline>'') =
     Inr ((section_header @ ''x\<newline>\<newline>}\<newline>'') @ section_header @ ''x\<newline>\<newline>}\<newline>'',
          [''Extracted 1 handlers to StateRouter.ts'', ''Handlers extracted:'', ''  - a'']) \<and>
   (section_header @ ''x\<newline>\<newline>}\<newline>'') @ section_header @ ''x\<newline>\<newline>}\<newline>'' \<noteq>
     section_header @ ''x\<newline>\<newline>}\<newline>'' \<and>
   extractor ''x\<newline>y\<newline>'' ''a:0:0\<newline>b:1:1\<newline>'' placeholder =
     Inr (section_header @ ''x\<newline>\<newline>y\<newline>\<newline>}\<newline>'',
          [''Extracted 2 handlers to StateRouter.ts'', ''Handlers extracted:'', ''  - a'', ''  - b''])"
  by code_simp

text \<open>
  Claim C1, as amended. A run of the Extractor that ends without fault writes the
  target with its placeholders removed, followed by the header, by one block per listed
  descriptor that does not name \<^verbatim>\<open>handleStateMessage\<close> (so the number of listed
  descriptors minus the number of those naming it), each block ending with one extra
  newline, and by the closing brace line. A second run on the resulting
  placeholder-free target does not leave it unchanged: it appends the header, the same
  blocks and the closing brace line again.
\<close>

theorem extractor_two_runs:
  assumes "extractor mr hi sr = Inr (out1, msgs)" and "\<not> sublist placeholder out1"
  shows "\<exists>hs. read_handlers (readlines hi) [] = Inr hs \<and>
           int (length hs) = int (length (listed hi)) - int (length (filter names_exception (listed hi))) \<and>
           out1 = replace placeholder [] sr @ section_header @
                    concat (map (block (readlines mr)) hs) @ ''}\<newline>'' \<and>
           extractor mr hi out1 =
             Inr (out1 @ section_header @ concat (map (block (readlines mr)) hs) @ ''}\<newline>'', msgs)"
proof -
  from assms(1) obtain hs where hs: "read_handlers (readlines hi) [] = Inr hs"
    by (auto simp: extractor_def split: sum.splits)
  from read_handlers_Inr[OF hs] have nm: "\<forall>l \<in> set (readlines hi). \<not> malformed l"
    and eq: "hs = List.map_filter descriptor_of
                    (filter (\<lambda>l. strip l \<noteq> [] \<and> \<not> names_exception l) (readlines hi))"
    by auto
  from length_kept[OF nm] eq
  have "int (length hs) = int (length (listed hi)) - int (length (filter names_exception (listed hi)))"
    by (simp add: listed_def)
  moreover from extractor_ok[OF hs, of mr sr] assms(1)
  have "out1 = replace placeholder [] sr @ section_header @
                 concat (map (block (readlines mr)) hs) @ ''}\<newline>''"
    and "msgs = printed hs" by auto
  moreover from extractor_ok[OF hs, of mr out1] assms(2) \<open>msgs = printed hs\<close>
  have "extractor mr hi out1 =
          Inr (out1 @ section_header @ concat (map (block (readlines mr)) hs) @ ''}\<newline>'', msgs)"
    by (simp add: replace_absent)
  ultimately show ?thesis using hs by blast
qed

theorem extractor_two_runs_witness:
  "extractor ''p\<newline>q\<newline>'' ''b:1:1\<newline>'' (''T'' @ placeholder) =
     Inr (''T'' @ section_header @ ''q\<newline>\<newline>}\<newline>'',
          [''Extracted 1 handlers to StateRouter.ts'', ''Handlers extracted:'', ''  - b'']) \<and>
   \<not> sublist placeholder (''T'' @ section_header @ ''q\<newline>\<newline>}\<newline>'') \<and>
   (\<exists>hs. read_handlers (readlines ''b:1:1\<newline>'') [] = Inr hs \<and>
      int (length hs) = int (length (listed ''b:1:1\<newline>'')) -
                          int (length (filter names_exception (listed ''b:1:1\<newline>''))) \<and>
      ''T'' @ section_header @ ''q\<newline>\<newline>}\<newline>'' =
        replace placeholder [] (''T'' @ placeholder) @ section_header @
          concat (map (block (readlines ''p\<newline>q\<newline>'')) hs) @ ''}\<newline>'' \<and>
      extractor ''p\<newline>q\<newline>'' ''b:1:1\<newline>'' (''T'' @ section_header @ ''q\<newline>\<newline>}\<newline>'') =
        Inr ((''T'' @ section_header @ ''q\<newline>\<newline>}\<newline>'') @ section_header @
               concat (map (block (readlines ''p\<newline>q\<newline>'')) hs) @ ''}\<newline>'',
             [''Extracted 1 handlers to StateRouter.ts'', ''Handlers extracted:'', ''  - b'']))"
proof -
  have h1: "extractor ''p\<newline>q\<newline>'' ''b:1:1\<newline>'' (''T'' @ placeholder) =
     Inr (''T'' @ section_header @ ''q\<newline>\<newline>}\<newline>'',
          [''Extracted 1 handlers to StateRouter.ts'', ''Handlers extracted:'', ''  - b''])"
    by code_simp
  have h2: "\<not> sublist placeholder (''T'' @ section_header @ ''q\<newline>\<newline>}\<newline>'')"
    by code_simp
  from extractor_two_runs[OF h1 h2] h1 h2 show ?thesis
    by blast
qed



section \<open>Properties of the Rewriter's substitutions\<close>

lemma re_match_length:
  "re_match pat s = Some rest \<Longrightarrow> length rest \<le> length s"
proof (induction pat s arbitrary: rest rule: re_match.induct)
  case (1 s)
  then show ?case by simp
next
  case (2 l r s)
  then show ?case by (auto split: if_splits)
next
  case (3 P r)
  then show ?case by simp
next
  case (4 P r c cs)
  then show ?case by (fastforce split: if_splits option.splits)
next
  case (5 P r)
  then show ?case by simp
next
  case (6 P r c cs)
  then show ?case by (fastforce split: if_splits option.splits)
qed

lemma re_match_Lit_length:
  "re_match (Lit l # r) s = Some rest \<Longrightarrow> length rest + length l \<le> length s"
proof -
  assume a: "re_match (Lit l # r) s = Some rest"
  then have p: "prefix l s" and m: "re_match r (drop (length l) s) = Some rest"
    by (auto split: if_splits)
  from re_match_length[OF m] have "length rest \<le> length s - length l" by simp
  moreover from p have "length l \<le> length s" by (rule prefix_length_le)
  ultimately show ?thesis by simp
qed

lemma old_handle_state_consumes:
  "re_match old_handle_state s = Some rest \<Longrightarrow> length rest < length s"
  unfolding old_handle_state_def
  by (drule re_match_Lit_length) simp

lemma matches_nowhere_iff:
  "matches_nowhere pat s n \<longleftrightarrow> (\<forall>k<n. re_match pat (drop k s) = None)"
  unfolding matches_nowhere_def list_all_iff by (auto simp del: upt_Suc)

lemma re_sub_nowhere:
  "matches_nowhere pat s (Suc (length s)) \<Longrightarrow> re_sub pat repl s = s"
proof (induction s)
  case Nil
  then show ?case by (simp add: matches_nowhere_def)
next
  case (Cons c cs)
  from Cons.prems have all: "\<forall>k < Suc (Suc (length cs)). re_match pat (drop k (c # cs)) = None"
    by (simp add: matches_nowhere_iff)
  then have "re_match pat (drop 0 (c # cs)) = None" by blast
  then have "re_match pat (c # cs) = None" by simp
  moreover have "matches_nowhere pat cs (Suc (length cs))"
    unfolding matches_nowhere_iff
  proof (intro allI impI)
    fix k assume "k < Suc (length cs)"
    then have "Suc k < Suc (Suc (length cs))" by simp
    with all have "re_match pat (drop (Suc k) (c # cs)) = None" by blast
    then show "re_match pat (drop k cs) = None" by simp
  qed
  ultimately show ?case using Cons.IH by simp
qed

lemma re_sub_first:
  assumes "matches_nowhere pat (pre @ m) (length pre)"
    and "re_match pat m = Some rest" and "length rest < length m"
  shows "re_sub pat repl (pre @ m) = pre @ repl @ re_sub pat repl rest"
  using assms(1)
proof (induction pre)
  case Nil
  from assms(3) obtain c cs where m: "m = c # cs" by (cases m) auto
  with assms(2,3) show ?case by simp
next
  case (Cons c pre)
  from Cons.prems have all: "\<forall>k < Suc (length pre). re_match pat (drop k (c # pre @ m)) = None"
    by (simp add: matches_nowhere_iff)
  then have "re_match pat (drop 0 (c # pre @ m)) = None" by blast
  then have "re_match pat (c # pre @ m) = None" by simp
  moreover have "matches_nowhere pat (pre @ m) (length pre)"
    unfolding matches_nowhere_iff
  proof (intro allI impI)
    fix k assume "k < length pre"
    then have "Suc k < Suc (length pre)" by simp
    with all have "re_match pat (drop (Suc k) (c # pre @ m)) = None" by blast
    then show "re_match pat (drop k (pre @ m)) = None" by simp
  qed
  ultimately show ?case using Cons.IH by simp
qed

lemma import_anchor_ne:
  "import_anchor \<noteq> []"
  by (simp add: import_anchor_def)

lemma field_anchor_ne:
  "field_anchor \<noteq> []"
  by (simp add: field_anchor_def)

lemma nlp_router_init_ne:
  "nlp_router_init \<noteq> []"
  by (simp add: nlp_router_init_def)


lemma rewriter_ok:
  "read_handlers (readlines hi) [] = Inr hs \<Longrightarrow>
   rewriter hi mr =
     Inr (delegate_handle_state (add_init (add_field (add_import
            (concat (deletion hs (readlines mr)))))), success_report (length hs))"
  by (simp add: rewriter_def success_report_def)

text \<open>
  The claim as written says that each insertion occurs exactly once. In a file that has
  the import line twice, the new import line is inserted after each of them.
\<close>

theorem rewriter_substitutions_counterexample:
  "rewriter [] (import_anchor @ ''\<newline>'' @ import_anchor @ ''\<newline>'') =
     Inr (import_anchor @ import_line @ ''\<newline>'' @ import_anchor @ import_line @ ''\<newline>'',
          success_report 0)"
  by code_simp

text \<open>
  Claim C5, as amended. Each of the four substitutions of the Rewriter is applied at
  every occurrence of its anchor, found from left to right without overlap (for the
  fourth, at every match of the pattern): the text up to and including the first
  occurrence receives the insertion once and the rest of the file is treated in the same
  way, so the insertion occurs exactly once when the anchor occurs exactly once. When
  the anchor is absent the substitution leaves the text unchanged. Whatever the anchors,
  a run whose listing parses ends with the report of success.
\<close>

theorem rewriter_substitutions:
  "(\<not> sublist import_anchor c \<longrightarrow> add_import c = c) \<and>
   (\<not> sublist import_anchor (pre @ butlast import_anchor) \<longrightarrow>
      add_import (pre @ import_anchor @ post) =
        pre @ import_anchor @ import_line @ add_import post) \<and>
   (\<not> sublist field_anchor c \<longrightarrow> add_field c = c) \<and>
   (\<not> sublist field_anchor (pre @ butlast field_anchor) \<longrightarrow>
      add_field (pre @ field_anchor @ post) =
        pre @ field_anchor @ field_line @ add_field post) \<and>
   (\<not> sublist nlp_router_init c \<longrightarrow> add_init c = c) \<and>
   (\<not> sublist nlp_router_init (pre @ butlast nlp_router_init) \<longrightarrow>
      add_init (pre @ nlp_router_init @ post) =
        pre @ init_block @ nlp_router_init @ add_init post) \<and>
   (matches_nowhere old_handle_state c (Suc (length c)) \<longrightarrow> delegate_handle_state c = c) \<and>
   (matches_nowhere old_handle_state (pre @ m) (length pre) \<and>
    re_match old_handle_state m = Some rest \<longrightarrow>
      delegate_handle_state (pre @ m) = pre @ new_handle_state @ delegate_handle_state rest) \<and>
   (read_handlers (readlines hi) [] = Inr hs \<longrightarrow>
      rewriter hi mr =
        Inr (delegate_handle_state (add_init (add_field (add_import
               (concat (deletion hs (readlines mr)))))), success_report (length hs)))"
proof -
  have A: "\<not> sublist import_anchor c \<longrightarrow> add_import c = c"
    by (simp add: add_import_def replace_absent)
  have B: "\<not> sublist import_anchor (pre @ butlast import_anchor) \<longrightarrow>
      add_import (pre @ import_anchor @ post) =
        pre @ import_anchor @ import_line @ add_import post"
    by (simp add: add_import_def replace_first[OF import_anchor_ne])
  have C: "\<not> sublist field_anchor c \<longrightarrow> add_field c = c"
    by (simp add: add_field_def replace_absent)
  have D: "\<not> sublist field_anchor (pre @ butlast field_anchor) \<longrightarrow>
      add_field (pre @ field_anchor @ post) =
        pre @ field_anchor @ field_line @ add_field post"
    by (simp add: add_field_def replace_first[OF field_anchor_ne])
  have E: "\<not> sublist nlp_router_init c \<longrightarrow> add_init c = c"
    by (simp add: add_init_def replace_absent)
  have F: "\<not> sublist nlp_router_init (pre @ butlast nlp_router_init) \<longrightarrow>
      add_init (pre @ nlp_router_init @ post) =
        pre @ init_block @ nlp_router_init @ add_init post"
    by (simp add: add_init_def state_router_init_def replace_first[OF nlp_router_init_ne])
  have G: "matches_nowhere old_handle_state c (Suc (length c)) \<longrightarrow> delegate_handle_state c = c"
    by (simp add: delegate_handle_state_def re_sub_nowhere)
  have H: "matches_nowhere old_handle_state (pre @ m) (length pre) \<and>
    re_match old_handle_state m = Some rest \<longrightarrow>
      delegate_handle_state (pre @ m) = pre @ new_handle_state @ delegate_handle_state rest"
    by (simp add: delegate_handle_state_def re_sub_first old_handle_state_consumes)
  have I: "read_handlers (readlines hi) [] = Inr hs \<longrightarrow>
      rewriter hi mr =
        Inr (delegate_handle_state (add_init (add_field (add_import
               (concat (deletion hs (readlines mr)))))), success_report (length hs))"
    by (simp add: rewriter_ok)
  show ?thesis
    by (rule conjI[OF A conjI[OF B conjI[OF C conjI[OF D conjI[OF E conjI[OF F conjI[OF G conjI[OF H I]]]]]]]])
qed

theorem rewriter_substitutions_witness:
  "add_import ''b'' = ''b'' \<and>
   add_import (''a'' @ import_anchor @ ''b'') = ''a'' @ import_anchor @ import_line @ ''b'' \<and>
   add_field ''b'' = ''b'' \<and>
   add_field (''a'' @ field_anchor @ ''b'') = ''a'' @ field_anchor @ field_line @ ''b'' \<and>
   add_init ''b'' = ''b'' \<and>
   add_init (''a'' @ nlp_router_init @ ''b'') = ''a'' @ init_block @ nlp_router_init @ ''b'' \<and>
   delegate_handle_state ''b'' = ''b'' \<and>
   delegate_handle_state (''a'' @ ''  private async handleStateMessage(phone: string, userId: string, state: ConversationState, text: string): Promise<void> {switch (state) {\<newline>  }'') = ''a'' @ new_handle_state @ delegate_handle_state [] \<and>
   rewriter [] ''b'' = Inr (''b'', success_report 0)"
proof -
  have h1: "\<not> sublist import_anchor ''b''"
    by code_simp
  have h2: "\<not> sublist import_anchor (''a'' @ butlast import_anchor)"
    by code_simp
  have h3: "\<not> sublist field_anchor ''b''"
    by code_simp
  have h4: "\<not> sublist field_anchor (''a'' @ butlast field_anchor)"
    by code_simp
  have h5: "\<not> sublist nlp_router_init ''b''"
    by code_simp
  have h6: "\<not> sublist nlp_router_init (''a'' @ butlast nlp_router_init)"
    by code_simp
  have h7: "matches_nowhere old_handle_state ''b'' (Suc (length ''b''))"
    by code_simp
  have h8: "matches_nowhere old_handle_state (''a'' @ ''  private async handleStateMessage(phone: string, userId: string, state: ConversationState, text: string): Promise<void> {switch (state) {\<newline>  }'') (length ''a'')"
    by code_simp
  have h9: "re_match old_handle_state ''  private async handleStateMessage(phone: string, userId: string, state: ConversationState, text: string): Promise<void> {switch (state) {\<newline>  }'' = Some []"
    by code_simp
  have h10: "read_handlers (readlines []) [] = Inr []"
    by simp
  have d: "concat (deletion [] (readlines ''b'')) = ''b''"
    by code_simp
  from rewriter_substitutions[where c = "''b''" and pre = "''a''" and post = "''b''"
      and m = "''  private async handleStateMessage(phone: string, userId: string, state: ConversationState, text: string): Promise<void> {switch (state) {\<newline>  }''" and rest = "[]" and hi = "[]" and hs = "[]" and mr = "''b''"]
    h1 h2 h3 h4 h5 h6 h7 h8 h9 h10 d
  show ?thesis
    by simp
qed

end
